theory Spec2Isabelle
  imports Complex_Main
begin

section \<open>Data model\<close>

text \<open>
  Modelled from the spec: the scalar type \<^verbatim>\<open>number\<close> of a row value (the declarations
  of \<^verbatim>\<open>./types\<close> are missing). A JavaScript number is compared by \<^verbatim>\<open>===\<close> by its
  numeric value, \<^verbatim>\<open>NaN\<close> being unequal to everything, itself included. The zeros of
  either sign are two values of one numeric value: \<open>Finite 0\<close> is \<^verbatim>\<open>+0\<close> and \<open>NegZero\<close>
  is \<^verbatim>\<open>-0\<close>.
\<close>

datatype number = NaN | PosInfinity | NegInfinity | NegZero | Finite real

text \<open>
  Modelled from the spec: \<^verbatim>\<open>SqliteValue\<close> of \<^verbatim>\<open>./types\<close>, a scalar value that is null,
  a string, a number or an opaque binary value. The code compares a binary value by
  reference only and never reads its bytes, so a binary value is its object
  identity.
\<close>

datatype SqliteValue = Null | Str string | Num number | Blob nat

text \<open>
  Modelled from the spec: \<^verbatim>\<open>SQLiteRowRecord\<close> of \<^verbatim>\<open>./types\<close>, an ordered mapping from
  field names to scalar values, as the list of the object's own properties in
  enumeration order. \<^verbatim>\<open>item[key]\<close> is \<open>map_of item key\<close>, with \<open>None\<close> for
  \<^verbatim>\<open>undefined\<close>; \<^verbatim>\<open>for (const key in item)\<close> runs over \<open>map fst item\<close>. An object has
  no field name twice (\<open>wf_row\<close>).
\<close>

type_synonym SQLiteRowRecord = "(string \<times> SqliteValue) list"

definition wf_row :: "SQLiteRowRecord \<Rightarrow> bool" where
  "wf_row item = distinct (map fst item)"

text \<open>
  Modelled from the spec: \<^verbatim>\<open>Patch\<close> of \<^verbatim>\<open>./types\<close>, a tagged variant of three cases,
  which the code tags by \<^verbatim>\<open>op\<close>: \<^verbatim>\<open>replaceAll\<close> with \<^verbatim>\<open>value\<close>, \<^verbatim>\<open>replaceAt\<close> with
  \<^verbatim>\<open>index\<close> and \<^verbatim>\<open>value\<close>, and \<^verbatim>\<open>purge\<close>. The parameter is what a \<^verbatim>\<open>replaceAll\<close>
  patch carries: the rows themselves, or the reference to an array in a store. The
  index of a \<^verbatim>\<open>replaceAt\<close> patch is a non-negative integer.
\<close>

datatype 'a Patch = ReplaceAll 'a | ReplaceAt nat SQLiteRowRecord | Purge

subsection \<open>Strict equality\<close>

fun number_eq :: "number \<Rightarrow> number \<Rightarrow> bool" where
  "number_eq NaN _ = False"
| "number_eq _ NaN = False"
| "number_eq NegZero y = (y = NegZero \<or> y = Finite 0)"
| "number_eq x NegZero = (x = Finite 0)"
| "number_eq x y = (x = y)"

text \<open>
  \<^verbatim>\<open>a === b\<close> on what a property read returns: \<^verbatim>\<open>undefined\<close> (\<open>None\<close>) or a value.
  Values of different types are never equal; there is no coercion.
\<close>

definition strict_eq :: "SqliteValue option \<Rightarrow> SqliteValue option \<Rightarrow> bool" where
  "strict_eq a b =
     (case (a, b) of
        (Some (Num x), Some (Num y)) \<Rightarrow> number_eq x y
      | _ \<Rightarrow> a = b)"

section \<open>createPatches\<close>

text \<open>
  The inner loop \<^verbatim>\<open>for (const key in pItem)\<close>: at the first key whose values differ
  it pushes one \<^verbatim>\<open>replaceAt\<close> patch and breaks.
\<close>

fun keys_loop ::
  "string list \<Rightarrow> SQLiteRowRecord \<Rightarrow> SQLiteRowRecord \<Rightarrow> nat \<Rightarrow>
   'a Patch list \<Rightarrow> 'a Patch list" where
  "keys_loop [] pItem nItem i replaceAtOps = replaceAtOps"
| "keys_loop (key # keys) pItem nItem i replaceAtOps =
     (if \<not> strict_eq (map_of pItem key) (map_of nItem key)
      then replaceAtOps @ [ReplaceAt i nItem]
      else keys_loop keys pItem nItem i replaceAtOps)"

text \<open>
  The outer loop \<^verbatim>\<open>for (let i = 0; i < previous.length; i++)\<close>. It runs only when
  both arrays have the same length, so \<open>next ! i\<close> is a row of \<open>next\<close>.
\<close>

function rows_loop ::
  "SQLiteRowRecord list \<Rightarrow> SQLiteRowRecord list \<Rightarrow> nat \<Rightarrow>
   'a Patch list \<Rightarrow> 'a Patch list" where
  "rows_loop previous next i replaceAtOps =
     (if i < length previous
      then rows_loop previous next (Suc i)
             (keys_loop (map fst (previous ! i)) (previous ! i) (next ! i) i replaceAtOps)
      else replaceAtOps)"
  by pat_completeness auto
termination
  by (relation "measure (\<lambda>(previous, next, i, replaceAtOps). length previous - i)") auto

declare rows_loop.simps [simp del]

definition createPatches ::
  "SQLiteRowRecord list option \<Rightarrow> SQLiteRowRecord list \<Rightarrow>
   SQLiteRowRecord list Patch list" where
  "createPatches previous next =
     (case previous of
        None \<Rightarrow> [ReplaceAll next]
      | Some prev \<Rightarrow>
          if length prev = 0 \<and> length next = 0 then []
          else if length prev \<noteq> length next then [ReplaceAll next]
          else
            let replaceAtOps = rows_loop prev next 0 [] in
            if length replaceAtOps = 0 then []
            else if length replaceAtOps = length prev then [ReplaceAll next]
            else replaceAtOps)"

section \<open>applyPatches\<close>

text \<open>
  An array as \<^verbatim>\<open>applyPatches\<close> holds it at run time: an element is a row, or \<open>None\<close>
  where the array has a hole (reading it gives \<^verbatim>\<open>undefined\<close>). The declared type
  \<^verbatim>\<open>readonly SQLiteRowRecord[]\<close> has no holes; \<open>dense\<close> embeds it.
\<close>

type_synonym RowArray = "SQLiteRowRecord option list"

definition dense :: "SQLiteRowRecord list \<Rightarrow> RowArray" where
  "dense rows = map Some rows"

text \<open>
  \<^verbatim>\<open>next[index] = v\<close> on an array: in range it replaces the element; at or beyond the
  length the array grows to \<open>index + 1\<close> elements, the new ones before \<open>index\<close> being
  holes. An array index is below \<open>2 ^ 32 - 1\<close>: at a greater number the assignment
  sets a property that is no element, and the elements and the length stay as they
  are.
\<close>

definition array_set :: "RowArray \<Rightarrow> nat \<Rightarrow> SQLiteRowRecord \<Rightarrow> RowArray" where
  "array_set a i v =
     (if i < length a then a[i := Some v]
      else if i < 2 ^ 32 - 1 then a @ replicate (i - length a) None @ [Some v]
      else a)"

text \<open>The reducer: one patch applied to the accumulator \<open>a\<close> (\<open>None\<close> is \<^verbatim>\<open>undefined\<close>).\<close>

fun applyPatch ::
  "RowArray option \<Rightarrow> SQLiteRowRecord list Patch \<Rightarrow> RowArray option" where
  "applyPatch a (ReplaceAll v) = Some (dense v)"
| "applyPatch a (ReplaceAt i v) =
     (case a of
        None \<Rightarrow> None
      | Some arr \<Rightarrow> Some (array_set arr i v))"
| "applyPatch a Purge = None"

definition applyPatches ::
  "SQLiteRowRecord list Patch list \<Rightarrow> RowArray option \<Rightarrow> RowArray option" where
  "applyPatches patches current = foldl applyPatch current patches"

subsection \<open>applyPatches over a store\<close>

text \<open>
  Who else sees an array matters to \<^verbatim>\<open>applyPatches\<close>: the \<^verbatim>\<open>replaceAt\<close> case copies
  the accumulator (\<^verbatim>\<open>[...a]\<close>) and writes into the copy. Here the arrays live in a
  store, a reference is a position in it, and a write changes the array at its
  reference. A \<^verbatim>\<open>replaceAll\<close> patch carries the reference of its array, which the
  reducer returns as it is. References in use are below the length of the store.
\<close>

type_synonym ref = nat
type_synonym store = "RowArray list"

definition spread :: "store \<Rightarrow> ref \<Rightarrow> store \<times> ref" where
  "spread h a = (h @ [h ! a], length h)"

definition store_set :: "store \<Rightarrow> ref \<Rightarrow> nat \<Rightarrow> SQLiteRowRecord \<Rightarrow> store" where
  "store_set h r i v = h[r := array_set (h ! r) i v]"

fun applyPatch_store :: "store \<times> ref option \<Rightarrow> ref Patch \<Rightarrow> store \<times> ref option" where
  "applyPatch_store (h, a) (ReplaceAll r) = (h, Some r)"
| "applyPatch_store (h, a) (ReplaceAt i v) =
     (case a of
        None \<Rightarrow> (h, None)
      | Some r \<Rightarrow>
          let (h1, next) = spread h r;
              h2 = store_set h1 next i v
          in (h2, Some next))"
| "applyPatch_store (h, a) Purge = (h, None)"

definition applyPatches_store ::
  "ref Patch list \<Rightarrow> store \<Rightarrow> ref option \<Rightarrow> store \<times> ref option" where
  "applyPatches_store patches h current = foldl applyPatch_store (h, current) patches"

section \<open>Notions of the specification\<close>

text \<open>
  A row is changed when some field name present in the previous row maps to a value
  strictly unequal to the value at the same field name in the next row.
\<close>

definition row_changed :: "SQLiteRowRecord \<Rightarrow> SQLiteRowRecord \<Rightarrow> bool" where
  "row_changed pItem nItem =
     (\<exists>key \<in> set (map fst pItem). \<not> strict_eq (map_of pItem key) (map_of nItem key))"

text \<open>The indices of the changed rows, ascending.\<close>

definition changed_rows :: "SQLiteRowRecord list \<Rightarrow> SQLiteRowRecord list \<Rightarrow> nat list" where
  "changed_rows prev next = filter (\<lambda>i. row_changed (prev ! i) (next ! i)) [0..<length prev]"

text \<open>
  The indices of a patch sequence that holds \<^verbatim>\<open>replaceAt\<close> patches only; \<open>None\<close> when
  it holds a patch of another kind.
\<close>

fun replaceAt_indices :: "'a Patch list \<Rightarrow> nat list option" where
  "replaceAt_indices [] = Some []"
| "replaceAt_indices (ReplaceAt i v # patches) = map_option (Cons i) (replaceAt_indices patches)"
| "replaceAt_indices (_ # patches) = None"

text \<open>
  A non-empty sequence of \<^verbatim>\<open>replaceAt\<close> patches only, with strictly ascending indices,
  of fewer than \<open>n\<close> patches.
\<close>

definition replaceAt_shape :: "nat \<Rightarrow> 'a Patch list \<Rightarrow> bool" where
  "replaceAt_shape n patches =
     (case replaceAt_indices patches of
        None \<Rightarrow> False
      | Some is \<Rightarrow> is \<noteq> [] \<and> sorted_wrt (<) is \<and> length is < n)"

text \<open>
  A previous result that is unknown, or of another length than \<open>next\<close>, or in which
  every row that is not changed is the row of \<open>next\<close> at its index: the same fields in
  the same order with the same values, the sign of a zero included.
\<close>

definition unchanged_rows_same ::
  "SQLiteRowRecord list option \<Rightarrow> SQLiteRowRecord list \<Rightarrow> bool" where
  "unchanged_rows_same previous next =
     (case previous of
        None \<Rightarrow> True
      | Some prev \<Rightarrow>
          length prev \<noteq> length next \<or>
          list_all2 (\<lambda>pItem nItem. row_changed pItem nItem \<or> pItem = nItem) prev next)"

section \<open>The loops of createPatches\<close>

text \<open>
  The inner loop pushes its patch exactly when some key of the previous row has
  strictly unequal values in the two rows; the outer loop collects, in ascending
  order, one patch for every changed row.
\<close>

lemma keys_loop_eq:
  "keys_loop keys pItem nItem i ops =
     (if \<exists>key \<in> set keys. \<not> strict_eq (map_of pItem key) (map_of nItem key)
      then ops @ [ReplaceAt i nItem] else ops)"
  by (induction keys) auto

lemma keys_loop_row_changed:
  "keys_loop (map fst pItem) pItem nItem i ops =
     (if row_changed pItem nItem then ops @ [ReplaceAt i nItem] else ops)"
  unfolding keys_loop_eq row_changed_def by simp

lemma rows_loop_eq:
  "rows_loop prev next i ops =
     ops @ map (\<lambda>j. ReplaceAt j (next ! j))
             (filter (\<lambda>j. row_changed (prev ! j) (next ! j)) [i..<length prev])"
proof (induction prev "next" i ops rule: rows_loop.induct)
  case (1 previous nxt i replaceAtOps)
  show ?case
  proof (cases "i < length previous")
    case True
    then have upt: "[i..<length previous] = i # [Suc i..<length previous]"
      by (simp add: upt_conv_Cons)
    show ?thesis
      using True 1
      by (subst rows_loop.simps) (simp add: upt keys_loop_row_changed)
  next
    case False
    then show ?thesis
      by (subst rows_loop.simps) simp
  qed
qed

lemma rows_loop_changed_rows:
  "rows_loop prev next 0 [] = map (\<lambda>j. ReplaceAt j (next ! j)) (changed_rows prev next)"
  by (simp add: rows_loop_eq changed_rows_def)

lemma createPatches_known:
  assumes "length prev = length next"
  shows "createPatches (Some prev) next =
     (if changed_rows prev next = [] then []
      else if length (changed_rows prev next) = length prev then [ReplaceAll next]
      else map (\<lambda>j. ReplaceAt j (next ! j)) (changed_rows prev next))"
  using assms by (auto simp: createPatches_def rows_loop_changed_rows Let_def changed_rows_def)

lemma length_filter_full:
  "length (filter P xs) = length xs \<longleftrightarrow> (\<forall>x \<in> set xs. P x)"
proof (induction xs)
  case Nil
  show ?case by simp
next
  case (Cons x xs)
  have "length (filter P xs) \<le> length xs"
    by (rule length_filter_le)
  then have "length (filter P xs) \<noteq> Suc (length xs)"
    by linarith
  with Cons show ?case by auto
qed

lemma changed_rows_all:
  "length (changed_rows prev next) = length prev \<longleftrightarrow>
     (\<forall>i<length prev. row_changed (prev ! i) (next ! i))"
proof -
  have "length (changed_rows prev next) = length [0..<length prev] \<longleftrightarrow>
     (\<forall>i \<in> set [0..<length prev]. row_changed (prev ! i) (next ! i))"
    unfolding changed_rows_def by (rule length_filter_full)
  then show ?thesis by auto
qed

lemma changed_rows_none:
  "changed_rows prev next = [] \<longleftrightarrow> (\<forall>i<length prev. \<not> row_changed (prev ! i) (next ! i))"
  by (auto simp: changed_rows_def filter_empty_conv)

lemma createPatches_cases:
  "createPatches previous next = [] \<or>
   createPatches previous next = [ReplaceAll next] \<or>
   (\<exists>prev. previous = Some prev \<and> length prev = length next \<and>
      changed_rows prev next \<noteq> [] \<and> length (changed_rows prev next) < length prev \<and>
      createPatches previous next = map (\<lambda>j. ReplaceAt j (next ! j)) (changed_rows prev next))"
proof (cases previous)
  case None
  then show ?thesis by (simp add: createPatches_def)
next
  case (Some prev)
  show ?thesis
  proof (cases "length prev = length next")
    case False
    then show ?thesis using Some by (auto simp: createPatches_def)
  next
    case True
    have "length (changed_rows prev next) \<le> length prev"
      unfolding changed_rows_def using length_filter_le [of _ "[0..<length prev]"] by simp
    then show ?thesis
      using Some True by (auto simp: createPatches_known)
  qed
qed

lemma replaceAt_indices_map:
  "replaceAt_indices (map (\<lambda>j. ReplaceAt j (f j)) js) = Some js"
  by (induction js) simp_all

lemma sorted_changed_rows: "sorted_wrt (<) (changed_rows prev next)"
  unfolding changed_rows_def by (rule sorted_wrt_filter) simp

section \<open>Properties of createPatches\<close>

text \<open>
  C4 (unknown previous): for every \<open>next\<close>, the patches from an unknown previous
  result to \<open>next\<close> are exactly the one patch \<open>ReplaceAll next\<close>.
\<close>

theorem createPatches_unknown_previous:
  "createPatches None next = [ReplaceAll next]"
  by (simp add: createPatches_def)

text \<open>
  C5 (length change): for every two known results of different lengths, the patches
  are exactly the one patch \<open>ReplaceAll next\<close>; a change of the number of rows is
  never a sequence of per-row patches.
\<close>

theorem createPatches_length_change:
  "length prev \<noteq> length next \<Longrightarrow> createPatches (Some prev) next = [ReplaceAll next]"
  by (auto simp: createPatches_def)

theorem createPatches_length_change_witness:
  "length [[(''a'', Num (Finite 1))]] \<noteq> length ([] :: SQLiteRowRecord list) \<and>
   createPatches (Some [[(''a'', Num (Finite 1))]]) [] = [ReplaceAll []]"
  using createPatches_length_change [of "[[(''a'', Num (Finite 1))]]" "[]"]
  by simp

text \<open>
  C2 (partial change): for two known results of the same length in which at least
  one row, but not every row, is changed, the patches are exactly one
  \<open>ReplaceAt i (next ! i)\<close> for every changed row \<open>i\<close>, in ascending order of \<open>i\<close>,
  and nothing else.
\<close>

theorem createPatches_partial_change:
  assumes "length prev = length next"
    and "\<exists>i<length prev. row_changed (prev ! i) (next ! i)"
    and "\<exists>i<length prev. \<not> row_changed (prev ! i) (next ! i)"
  shows "createPatches (Some prev) next =
           map (\<lambda>i. ReplaceAt i (next ! i))
             (filter (\<lambda>i. row_changed (prev ! i) (next ! i)) [0..<length prev])"
proof -
  from assms(2) have "changed_rows prev next \<noteq> []"
    by (simp add: changed_rows_none)
  moreover from assms(3) have "length (changed_rows prev next) \<noteq> length prev"
    by (simp add: changed_rows_all)
  ultimately show ?thesis
    using assms(1) by (simp add: createPatches_known) (simp add: changed_rows_def)
qed

text \<open>
  The example of the specification: from \<^verbatim>\<open>[{a:1},{a:2},{a:3}]\<close> to
  \<^verbatim>\<open>[{a:1},{a:9},{a:3}]\<close> the patches are \<^verbatim>\<open>[ReplaceAt(1, {a:9})]\<close>.
\<close>

theorem createPatches_partial_change_witness:
  "createPatches
     (Some [[(''a'', Num (Finite 1))], [(''a'', Num (Finite 2))], [(''a'', Num (Finite 3))]])
     [[(''a'', Num (Finite 1))], [(''a'', Num (Finite 9))], [(''a'', Num (Finite 3))]]
   = [ReplaceAt 1 [(''a'', Num (Finite 9))]]"
proof -
  let ?p = "[[(''a'', Num (Finite 1))], [(''a'', Num (Finite 2))], [(''a'', Num (Finite 3))]]"
  let ?n = "[[(''a'', Num (Finite 1))], [(''a'', Num (Finite 9))], [(''a'', Num (Finite 3))]]"
  have len: "length ?p = length ?n" by simp
  have some: "\<exists>i<length ?p. row_changed (?p ! i) (?n ! i)"
    by (rule exI [of _ 1]) (simp add: row_changed_def strict_eq_def)
  have notall: "\<exists>i<length ?p. \<not> row_changed (?p ! i) (?n ! i)"
    by (rule exI [of _ 0]) (simp add: row_changed_def strict_eq_def)
  have upt3: "[0..<length ?p] = [0, 1, 2]"
    by (simp add: upt_conv_Cons)
  show ?thesis
    unfolding createPatches_partial_change [OF len some notall] upt3
    by (simp add: row_changed_def strict_eq_def)
qed

text \<open>
  C3 (all changed): for two known results of the same non-zero length in which
  every row is changed, the patches are the one patch \<open>ReplaceAll next\<close>, not one
  \<open>ReplaceAt\<close> per row.
\<close>

theorem createPatches_all_changed:
  assumes "length prev = length next"
    and "next \<noteq> []"
    and "\<forall>i<length prev. row_changed (prev ! i) (next ! i)"
  shows "createPatches (Some prev) next = [ReplaceAll next]"
proof -
  from assms(3) have all: "length (changed_rows prev next) = length prev"
    by (simp add: changed_rows_all)
  with assms(1,2) have "changed_rows prev next \<noteq> []"
    by auto
  with all show ?thesis
    using assms(1) by (simp add: createPatches_known)
qed

theorem createPatches_all_changed_witness:
  "createPatches (Some [[(''a'', Num (Finite 1))], [(''a'', Null)]])
     [[(''a'', Str ''1'')], [(''b'', Null)]]
   = [ReplaceAll [[(''a'', Str ''1'')], [(''b'', Null)]]]"
proof -
  let ?p = "[[(''a'', Num (Finite 1))], [(''a'', Null)]]"
  let ?n = "[[(''a'', Str ''1'')], [(''b'', Null)]]"
  have "\<forall>i<length ?p. row_changed (?p ! i) (?n ! i)"
    by (simp add: row_changed_def strict_eq_def less_Suc_eq)
  then show ?thesis
    by (intro createPatches_all_changed) simp_all
qed

text \<open>
  C6 (no change): for two known results of the same length in which no row is
  changed, the two empty results included, there is no patch.
\<close>

theorem createPatches_no_change:
  assumes "length prev = length next"
    and "\<forall>i<length prev. \<not> row_changed (prev ! i) (next ! i)"
  shows "createPatches (Some prev) next = []"
proof -
  from assms(2) have "changed_rows prev next = []"
    by (simp add: changed_rows_none)
  then show ?thesis
    using assms(1) by (simp add: createPatches_known)
qed

theorem createPatches_no_change_witness:
  "createPatches (Some [[(''a'', Num (Finite 1))], [(''a'', Blob 7)]])
     [[(''a'', Num (Finite 1))], [(''a'', Blob 7), (''b'', Null)]] = [] \<and>
   createPatches (Some []) [] = []"
proof -
  let ?p = "[[(''a'', Num (Finite 1))], [(''a'', Blob 7)]]"
  let ?n = "[[(''a'', Num (Finite 1))], [(''a'', Blob 7), (''b'', Null)]]"
  have "\<forall>i<length ?p. \<not> row_changed (?p ! i) (?n ! i)"
    by (simp add: row_changed_def strict_eq_def less_Suc_eq)
  then have "createPatches (Some ?p) ?n = []"
    by (intro createPatches_no_change) simp_all
  moreover have "createPatches (Some []) [] = []"
    by (intro createPatches_no_change) simp_all
  ultimately show ?thesis by simp
qed

text \<open>
  C9 (no purge): whatever the two results are, no patch of \<open>createPatches\<close> is
  \<open>Purge\<close>.
\<close>

theorem createPatches_never_purge:
  "Purge \<notin> set (createPatches previous next)"
  using createPatches_cases [of previous "next"] by auto

text \<open>
  C10 (shape of the patches): whatever the two results are, the patches are of
  exactly one of three shapes: no patch; the one patch \<open>ReplaceAll next\<close>; or, for a
  known previous result of the length of \<open>next\<close>, a non-empty sequence of \<open>ReplaceAt\<close>
  patches only, with strictly ascending indices, of fewer patches than that length.
\<close>

theorem createPatches_shape:
  "(createPatches previous next = [] \<or>
    createPatches previous next = [ReplaceAll next] \<or>
    (map_option length previous = Some (length next) \<and>
     replaceAt_shape (length next) (createPatches previous next))) \<and>
   \<not> (createPatches previous next = [] \<and>
      createPatches previous next = [ReplaceAll next]) \<and>
   \<not> (createPatches previous next = [] \<and>
      replaceAt_shape (length next) (createPatches previous next)) \<and>
   \<not> (createPatches previous next = [ReplaceAll next] \<and>
      replaceAt_shape (length next) (createPatches previous next))"
proof -
  have "\<not> replaceAt_shape n ([] :: SQLiteRowRecord list Patch list)" for n
    by (simp add: replaceAt_shape_def)
  moreover have "\<not> replaceAt_shape n [ReplaceAll next]" for n
    by (simp add: replaceAt_shape_def)
  moreover have "createPatches previous next = [] \<or>
    createPatches previous next = [ReplaceAll next] \<or>
    (map_option length previous = Some (length next) \<and>
     replaceAt_shape (length next) (createPatches previous next))"
    using createPatches_cases [of previous "next"]
    by (auto simp: replaceAt_shape_def replaceAt_indices_map sorted_changed_rows)
  ultimately show ?thesis by auto
qed

section \<open>Properties of applyPatches\<close>

text \<open>
  C7 (unknown and unconditional patches): a \<open>ReplaceAt\<close> patch, and any sequence of
  them, leaves an unknown result unknown; on every held result, known or not, and
  after any patches, \<open>ReplaceAll v\<close> gives \<open>v\<close> and \<open>Purge\<close> gives the unknown result; so
  two purges give the unknown result.
\<close>

theorem applyPatches_unknown_and_unconditional:
  "applyPatches [ReplaceAt i row] None = None \<and>
   applyPatches (map (\<lambda>(i, row). ReplaceAt i row) edits) None = None \<and>
   applyPatches [ReplaceAll v] current = Some (dense v) \<and>
   applyPatches (patches @ [ReplaceAll v]) current = Some (dense v) \<and>
   applyPatches [Purge] current = None \<and>
   applyPatches (patches @ [Purge]) current = None \<and>
   applyPatches [Purge, Purge] current = None"
proof -
  have "foldl applyPatch None (map (\<lambda>(i, row). ReplaceAt i row) edits) = None"
    by (induction edits) (simp_all add: case_prod_beta)
  then show ?thesis
    by (simp add: applyPatches_def)
qed

text \<open>
  C8 (frame of ReplaceAt): for a known result \<open>current\<close>, an index \<open>i\<close> below its
  length and a row \<open>v\<close>, applying \<open>ReplaceAt i v\<close> gives a result of the same length
  with \<open>v\<close> at \<open>i\<close> and the rows of \<open>current\<close> everywhere else. In a store that holds
  \<open>current\<close> at the reference \<open>a\<close>, the result is a new array at another reference,
  and the store still holds \<open>current\<close> at \<open>a\<close> and every other array as it was.
\<close>

theorem replaceAt_frame:
  assumes "a < length h" and "h ! a = dense current" and "i < length current"
  shows "\<exists>res h' r.
     applyPatches [ReplaceAt i v] (Some (dense current)) = Some (dense res) \<and>
     length res = length current \<and> res ! i = v \<and>
     (\<forall>j<length current. j \<noteq> i \<longrightarrow> res ! j = current ! j) \<and>
     applyPatches_store [ReplaceAt i v] h (Some a) = (h', Some r) \<and>
     r \<noteq> a \<and> h' ! r = dense res \<and> h' ! a = dense current \<and>
     (\<forall>b<length h. h' ! b = h ! b)"
proof (intro exI conjI)
  show "applyPatches [ReplaceAt i v] (Some (dense current)) = Some (dense (current[i := v]))"
    using assms(3) by (simp add: applyPatches_def array_set_def dense_def map_update)
  show "applyPatches_store [ReplaceAt i v] h (Some a) =
      (h @ [dense (current[i := v])], Some (length h))"
    using assms
    by (simp add: applyPatches_store_def spread_def store_set_def array_set_def dense_def
        map_update)
  show "length (current[i := v]) = length current" by simp
  show "current[i := v] ! i = v" using assms(3) by simp
  show "\<forall>j<length current. j \<noteq> i \<longrightarrow> current[i := v] ! j = current ! j" by simp
  show "length h \<noteq> a" using assms(1) by simp
  show "(h @ [dense (current[i := v])]) ! length h = dense (current[i := v])" by simp
  show "(h @ [dense (current[i := v])]) ! a = dense current"
    using assms(1,2) by (simp add: nth_append)
  show "\<forall>b<length h. (h @ [dense (current[i := v])]) ! b = h ! b"
    by (simp add: nth_append)
qed

theorem replaceAt_frame_witness:
  "(0::nat) < length [dense [[(''a'', Num (Finite 1))], [(''a'', Num (Finite 2))]]] \<and>
   [dense [[(''a'', Num (Finite 1))], [(''a'', Num (Finite 2))]]] ! 0 =
     dense [[(''a'', Num (Finite 1))], [(''a'', Num (Finite 2))]] \<and>
   (1::nat) < length [[(''a'', Num (Finite 1))], [(''a'', Num (Finite 2))]] \<and>
   (\<exists>res h' r.
     applyPatches [ReplaceAt 1 [(''a'', Null)]]
       (Some (dense [[(''a'', Num (Finite 1))], [(''a'', Num (Finite 2))]])) =
       Some (dense res) \<and>
     res = [[(''a'', Num (Finite 1))], [(''a'', Null)]] \<and>
     applyPatches_store [ReplaceAt 1 [(''a'', Null)]]
       [dense [[(''a'', Num (Finite 1))], [(''a'', Num (Finite 2))]]] (Some 0) =
       (h', Some r) \<and>
     r \<noteq> 0 \<and> h' ! r = dense res \<and>
     h' ! 0 = dense [[(''a'', Num (Finite 1))], [(''a'', Num (Finite 2))]])"
proof -
  let ?cur = "[[(''a'', Num (Finite 1))], [(''a'', Num (Finite 2))]]"
  let ?h = "[dense ?cur]"
  have 1: "(0::nat) < length ?h" by simp
  have 2: "?h ! 0 = dense ?cur" by simp
  have 3: "(1::nat) < length ?cur" by simp
  from replaceAt_frame [OF 1 2 3, of "[(''a'', Null)]"]
  obtain res h' r where
    val: "applyPatches [ReplaceAt 1 [(''a'', Null)]] (Some (dense ?cur)) = Some (dense res)" and
    res: "length res = length ?cur" "res ! 1 = [(''a'', Null)]"
      "\<forall>j<length ?cur. j \<noteq> 1 \<longrightarrow> res ! j = ?cur ! j" and
    run: "applyPatches_store [ReplaceAt 1 [(''a'', Null)]] ?h (Some 0) = (h', Some r)" and
    new: "r \<noteq> 0" "h' ! r = dense res" and
    old: "h' ! 0 = dense ?cur"
    by blast
  from res(3) have r0: "res ! 0 = [(''a'', Num (Finite 1))]" by simp
  have "res = [[(''a'', Num (Finite 1))], [(''a'', Null)]]"
  proof (rule nth_equalityI)
    show "length res = length [[(''a'', Num (Finite 1))], [(''a'', Null)]]"
      using res(1) by simp
    fix i assume "i < length res"
    with res(1) have "i = 0 \<or> i = 1" by auto
    with r0 res(2) show "res ! i = [[(''a'', Num (Finite 1))], [(''a'', Null)]] ! i"
      by auto
  qed
  with val run new old show ?thesis
    using 1 2 3 by blast
qed

section \<open>Round trip\<close>

text \<open>
  Applying a sequence of \<open>ReplaceAt\<close> patches with indices in range puts the row of
  \<open>next\<close> at each of these indices and keeps every other element. So, at equal
  lengths, applying the patches of \<open>createPatches\<close> to \<open>previous\<close> gives the row of
  \<open>next\<close> where the row is changed and the row of \<open>previous\<close> where it is not.
\<close>

lemma apply_replaceAts:
  assumes "\<forall>j \<in> set js. j < length arr"
  shows "\<exists>res. foldl applyPatch (Some arr) (map (\<lambda>j. ReplaceAt j (next ! j)) js) = Some res \<and>
     length res = length arr \<and>
     (\<forall>i<length arr. res ! i = (if i \<in> set js then Some (next ! i) else arr ! i))"
  using assms
proof (induction js arbitrary: arr rule: rev_induct)
  case Nil
  then show ?case by simp
next
  case (snoc j js)
  from snoc.prems have "\<forall>j \<in> set js. j < length arr" by simp
  from snoc.IH [OF this] obtain res where
    res: "foldl applyPatch (Some arr) (map (\<lambda>j. ReplaceAt j (next ! j)) js) = Some res"
      "length res = length arr"
      "\<forall>i<length arr. res ! i = (if i \<in> set js then Some (next ! i) else arr ! i)"
    by blast
  from snoc.prems res(2) have j: "j < length res" by simp
  show ?case
  proof (intro exI conjI)
    show "foldl applyPatch (Some arr) (map (\<lambda>j. ReplaceAt j (next ! j)) (js @ [j])) =
        Some (res[j := Some (next ! j)])"
      using res(1) j by (simp add: array_set_def)
    show "length (res[j := Some (next ! j)]) = length arr"
      using res(2) by simp
    show "\<forall>i<length arr. res[j := Some (next ! j)] ! i =
        (if i \<in> set (js @ [j]) then Some (next ! i) else arr ! i)"
    proof (intro allI impI)
      fix i assume i: "i < length arr"
      with res(3) have "res ! i = (if i \<in> set js then Some (next ! i) else arr ! i)"
        by simp
      with i res(2) show "res[j := Some (next ! j)] ! i =
          (if i \<in> set (js @ [j]) then Some (next ! i) else arr ! i)"
        by (cases "i = j") simp_all
    qed
  qed
qed

lemma roundtrip_rows:
  assumes "length prev = length next"
  shows "applyPatches (createPatches (Some prev) next) (Some (dense prev)) =
     Some (dense (map2 (\<lambda>pItem nItem. if row_changed pItem nItem then nItem else pItem)
       prev next))"
    (is "_ = Some (dense ?rows)")
proof -
  have len: "length ?rows = length next"
    using assms by simp
  have nth: "?rows ! i = (if row_changed (prev ! i) (next ! i) then next ! i else prev ! i)"
    if "i < length next" for i
    using that assms by simp
  have member: "i \<in> set (changed_rows prev next) \<longleftrightarrow> row_changed (prev ! i) (next ! i)"
    if "i < length next" for i
    using that assms by (simp add: changed_rows_def)
  show ?thesis
  proof (cases "changed_rows prev next = []")
    case True
    then have "\<not> row_changed (prev ! i) (next ! i)" if "i < length next" for i
      using that member [of i] by simp
    then have "?rows = prev"
      using assms len nth by (intro nth_equalityI) simp_all
    with True show ?thesis
      using assms by (simp add: applyPatches_def createPatches_known)
  next
    case False
    show ?thesis
    proof (cases "length (changed_rows prev next) = length prev")
      case True
      with changed_rows_all [of prev "next"]
      have "row_changed (prev ! i) (next ! i)" if "i < length next" for i
        using that assms by auto
      then have "?rows = next"
        using len nth by (intro nth_equalityI) simp_all
      with True False show ?thesis
        using assms by (simp add: applyPatches_def createPatches_known)
    next
      case some: False
      have "\<forall>j \<in> set (changed_rows prev next). j < length (dense prev)"
        by (simp add: changed_rows_def dense_def)
      from apply_replaceAts [OF this, of "next"] obtain res where
        res: "foldl applyPatch (Some (dense prev))
            (map (\<lambda>j. ReplaceAt j (next ! j)) (changed_rows prev next)) = Some res"
          "length res = length (dense prev)"
          "\<forall>i<length (dense prev). res ! i =
            (if i \<in> set (changed_rows prev next) then Some (next ! i) else dense prev ! i)"
        by blast
      have "res = dense ?rows"
      proof (rule nth_equalityI)
        show "length res = length (dense ?rows)"
          using res(2) assms by (simp add: dense_def)
        fix i assume "i < length res"
        with res(2) assms have i: "i < length next" by (simp add: dense_def)
        with res(3) assms member [OF i] nth [OF i] len
        show "res ! i = dense ?rows ! i"
          by (simp add: dense_def)
      qed
      with res(1) False some show ?thesis
        using assms by (simp add: applyPatches_def createPatches_known)
    qed
  qed
qed

lemma dense_inject: "dense xs = dense ys \<longleftrightarrow> xs = ys"
  by (simp add: dense_def inj_map_eq_map)

lemma kept_rows_eq_next:
  assumes "length prev = length next"
  shows "map2 (\<lambda>pItem nItem. if row_changed pItem nItem then nItem else pItem) prev next = next
    \<longleftrightarrow> list_all2 (\<lambda>pItem nItem. row_changed pItem nItem \<or> pItem = nItem) prev next"
  using assms
  by (induction prev "next" rule: list_induct2) auto

text \<open>
  C1, as amended (round trip): when the previous result is unknown, or of another
  length than \<open>next\<close>, or every row of it that is not changed is the row of \<open>next\<close> at
  the same index, applying the patches of \<open>createPatches previous next\<close> to \<open>previous\<close>
  gives \<open>next\<close>. A changed row may differ from the row of \<open>next\<close> in any way, in its
  field names too.
\<close>

theorem roundtrip_unchanged_rows_same:
  assumes "unchanged_rows_same previous next"
  shows "applyPatches (createPatches previous next) (map_option dense previous) = Some (dense next)"
proof (cases previous)
  case None
  then show ?thesis by (simp add: createPatches_def applyPatches_def)
next
  case (Some prev)
  show ?thesis
  proof (cases "length prev = length next")
    case False
    then show ?thesis using Some by (auto simp: createPatches_def applyPatches_def)
  next
    case True
    with assms Some
    have "list_all2 (\<lambda>pItem nItem. row_changed pItem nItem \<or> pItem = nItem) prev next"
      by (simp add: unchanged_rows_same_def)
    with True
    have "map2 (\<lambda>pItem nItem. if row_changed pItem nItem then nItem else pItem) prev next = next"
      by (simp add: kept_rows_eq_next)
    with roundtrip_rows [OF True] show ?thesis
      using Some by simp
  qed
qed

text \<open>
  An instance with one unchanged row and three changed ones: a changed number,
  \<^verbatim>\<open>NaN\<close>, which is strictly unequal to itself, and a row whose fields differ.
\<close>

theorem roundtrip_unchanged_rows_same_witness:
  "unchanged_rows_same
     (Some [[(''a'', Num (Finite 1))], [(''a'', Num (Finite 2))], [(''a'', Num NaN)],
            [(''a'', Num NegZero), (''b'', Null)]])
     [[(''a'', Num (Finite 1))], [(''a'', Num (Finite 9))], [(''a'', Num NaN)],
      [(''b'', Str ''x'')]] \<and>
   applyPatches
     (createPatches
        (Some [[(''a'', Num (Finite 1))], [(''a'', Num (Finite 2))], [(''a'', Num NaN)],
               [(''a'', Num NegZero), (''b'', Null)]])
        [[(''a'', Num (Finite 1))], [(''a'', Num (Finite 9))], [(''a'', Num NaN)],
         [(''b'', Str ''x'')]])
     (map_option dense
        (Some [[(''a'', Num (Finite 1))], [(''a'', Num (Finite 2))], [(''a'', Num NaN)],
               [(''a'', Num NegZero), (''b'', Null)]]))
   = Some (dense [[(''a'', Num (Finite 1))], [(''a'', Num (Finite 9))], [(''a'', Num NaN)],
      [(''b'', Str ''x'')]])"
proof -
  have h: "unchanged_rows_same
     (Some [[(''a'', Num (Finite 1))], [(''a'', Num (Finite 2))], [(''a'', Num NaN)],
            [(''a'', Num NegZero), (''b'', Null)]])
     [[(''a'', Num (Finite 1))], [(''a'', Num (Finite 9))], [(''a'', Num NaN)],
      [(''b'', Str ''x'')]]"
    by (simp add: unchanged_rows_same_def row_changed_def strict_eq_def)
  show ?thesis
    using h roundtrip_unchanged_rows_same [OF h] by simp
qed

text \<open>
  The condition is no more than the round trip needs: where the patches applied to
  \<open>previous\<close> give \<open>next\<close>, every row that is not changed is the row of \<open>next\<close>.
\<close>

lemma roundtrip_only_unchanged_rows_same:
  assumes "applyPatches (createPatches previous next) (map_option dense previous) =
    Some (dense next)"
  shows "unchanged_rows_same previous next"
proof (cases previous)
  case None
  then show ?thesis by (simp add: unchanged_rows_same_def)
next
  case (Some prev)
  show ?thesis
  proof (cases "length prev = length next")
    case False
    then show ?thesis using Some by (simp add: unchanged_rows_same_def)
  next
    case True
    from assms Some roundtrip_rows [OF True]
    have "map2 (\<lambda>pItem nItem. if row_changed pItem nItem then nItem else pItem) prev next = next"
      by (simp add: dense_inject)
    with True show ?thesis
      using Some by (simp add: unchanged_rows_same_def kept_rows_eq_next)
  qed
qed

text \<open>
  C1, as stated, fails where a row of \<open>next\<close> has a field that the row of
  \<open>previous\<close> lacks: from \<^verbatim>\<open>[{a:1}]\<close> to \<^verbatim>\<open>[{a:1, b:2}]\<close> the loop over the keys of
  the previous row finds no difference, there is no patch, and applying no patch
  leaves \<^verbatim>\<open>[{a:1}]\<close>.
\<close>

theorem roundtrip_counterexample:
  "applyPatches
     (createPatches (Some [[(''a'', Num (Finite 1))]])
        [[(''a'', Num (Finite 1)), (''b'', Num (Finite 2))]])
     (Some (dense [[(''a'', Num (Finite 1))]]))
   \<noteq> Some (dense [[(''a'', Num (Finite 1)), (''b'', Num (Finite 2))]])"
  by (simp add: createPatches_def rows_loop.simps strict_eq_def applyPatches_def dense_def)

text \<open>
  It fails as well where the two rows differ in the sign of a zero only: \<^verbatim>\<open>+0\<close> and
  \<^verbatim>\<open>-0\<close> are strictly equal, so from \<^verbatim>\<open>[{a:+0}]\<close> to \<^verbatim>\<open>[{a:-0}]\<close> there is no patch
  and the result keeps \<^verbatim>\<open>+0\<close>.
\<close>

lemma roundtrip_negative_zero:
  "createPatches (Some [[(''a'', Num (Finite 0))]]) [[(''a'', Num NegZero)]] = [] \<and>
   applyPatches
     (createPatches (Some [[(''a'', Num (Finite 0))]]) [[(''a'', Num NegZero)]])
     (Some (dense [[(''a'', Num (Finite 0))]]))
   = Some (dense [[(''a'', Num (Finite 0))]]) \<and>
   dense [[(''a'', Num (Finite 0))]] \<noteq> dense [[(''a'', Num NegZero)]]"
  by (simp add: createPatches_def rows_loop.simps strict_eq_def applyPatches_def dense_def)

end
